theory Spec2Isabelle
  imports Complex_Main "HOL-Library.Word"
begin

section \<open>Face detection with a Haar cascade: the per-frame transform and the main loop\<close>

text \<open>
  The development embeds \<^verbatim>\<open>deteccion_caras_haar.py\<close>. The script opens a camera, and
  in an unbounded loop reads a frame, runs an external detector, picks the largest
  rectangle, derives a normalised offset and an area, draws an overlay, shows the frame
  and polls the window. The camera, the detector and the window are external: they are
  parameters of the model (the record \<open>env\<close>).

  Numbers. The detector returns an array of \<^verbatim>\<open>numpy.int32\<close>: the four entries of a
  rectangle are 32-bit words, read as two's complement by \<open>sint\<close>, and \<^verbatim>\<open>+\<close>, \<^verbatim>\<open>-\<close>,
  \<^verbatim>\<open>*\<close> on them wrap around (the promotion rules of NumPy 2, where a Python integer
  operand keeps the result in \<^verbatim>\<open>int32\<close>). The frame dimensions \<^verbatim>\<open>h, w\<close> are Python
  integers, below \<open>2 ^ 31\<close> since OpenCV keeps them in a C \<^verbatim>\<open>int\<close>. The true division
  \<^verbatim>\<open>/\<close> yields a \<^verbatim>\<open>float64\<close>: a zero divisor raises nothing and gives \<^verbatim>\<open>inf\<close>, \<^verbatim>\<open>-inf\<close>
  or \<^verbatim>\<open>nan\<close>; otherwise the model keeps the exact quotient in \<open>rat\<close>, the rounding to a
  double is not modelled. Warnings printed by NumPy are not modelled.
\<close>

subsection \<open>Data\<close>

datatype error = RuntimeError string | CvError | ValueError

type_synonym int32 = "32 word"

text \<open>A detection \<^verbatim>\<open>(x, y, fw, fh)\<close>: top-left corner, width and height.\<close>

type_synonym rect = "int32 \<times> int32 \<times> int32 \<times> int32"

datatype float64 = Finite rat | PosInf | NegInf | NaN

text \<open>
  What \<^verbatim>\<open>cv2.rectangle\<close> and \<^verbatim>\<open>cv2.putText\<close> leave on a frame: the two corners, the
  colour and the thickness of the outline; the two numbers formatted into the text (the
  formatting to two decimals is not modelled), its origin, scale, colour and thickness.
\<close>

datatype drawing =
  Rectangle "int32 \<times> int32" "int32 \<times> int32" "nat \<times> nat \<times> nat" nat
| PutText "float64 \<times> float64" "int \<times> int" rat "nat \<times> nat \<times> nat" nat

text \<open>
  A colour frame: its height and width, its pixel samples (kept abstract), and what has
  been drawn on it since it was read.
\<close>

record 'p frame =
  rows :: nat
  cols :: nat
  pixels :: 'p
  drawn :: "drawing list"

text \<open>The single-channel image given to the detector: \<open>shape\<close> is \<^verbatim>\<open>(h, w)\<close>.\<close>

record 'p gray =
  shape :: "nat \<times> nat"
  samples :: 'p

text \<open>
  \<^verbatim>\<open>msg_x\<close> and \<^verbatim>\<open>msg_y\<close> are always floats. \<^verbatim>\<open>msg_z\<close> is the float \<^verbatim>\<open>0.0\<close> or the
  \<^verbatim>\<open>int32\<close> product \<^verbatim>\<open>fw * fh\<close>.
\<close>

datatype pynum = PyInt int32 | PyFloat float64

record relpos =
  msg_x :: float64
  msg_y :: float64
  msg_z :: pynum

text \<open>What the script does to the outside world, in order.\<close>

datatype 'p event =
  Read "'p frame option"
| Detect "'p gray"
| Imshow "'p frame"
| WaitKey
| GetWindowProperty rat
| Release
| DestroyAllWindows

text \<open>
  The external collaborators. \<open>isOpened\<close> is the answer of \<^verbatim>\<open>cap.isOpened()\<close>;
  \<open>read env k\<close> is the answer of call number \<open>k\<close> (from 0) of \<^verbatim>\<open>cap.read()\<close>, \<open>None\<close>
  when \<^verbatim>\<open>ret\<close> is false; \<open>detectMultiScale\<close> is the detector with its fixed parameters;
  \<open>getWindowProperty env k\<close> is the answer of the \<open>k\<close>-th visibility query.
\<close>

record 'p env =
  isOpened :: bool
  read :: "nat \<Rightarrow> 'p frame option"
  detectMultiScale :: "'p gray \<Rightarrow> rect list"
  getWindowProperty :: "nat \<Rightarrow> rat"

record 'p state =
  reads_made :: nat
  checks_made :: nat
  iterations :: nat
  trace :: "'p event list"

datatype status = Normal | Raised error

subsection \<open>The per-frame transform (lines 44 to 70)\<close>

text \<open>
  \<^verbatim>\<open>max(iterable, key=f)\<close>: the first item is the candidate, a later item replaces it
  only when its key is strictly greater; an empty iterable raises \<^verbatim>\<open>ValueError\<close>.
\<close>

fun max_from :: "('a \<Rightarrow> int) \<Rightarrow> 'a \<Rightarrow> 'a list \<Rightarrow> 'a" where
  "max_from key best [] = best"
| "max_from key best (x # xs) = max_from key (if key x > key best then x else best) xs"

definition py_max :: "'a list \<Rightarrow> ('a \<Rightarrow> int) \<Rightarrow> error + 'a" where
  "py_max xs key = (case xs of [] \<Rightarrow> Inl ValueError | x # rest \<Rightarrow> Inr (max_from key x rest))"

text \<open>
  The key \<^verbatim>\<open>lambda rect: rect[2] * rect[3]\<close>: the product of two \<^verbatim>\<open>int32\<close> is an
  \<^verbatim>\<open>int32\<close>, and keys are compared as signed numbers.
\<close>

fun area :: "rect \<Rightarrow> int" where
  "area (x, y, fw, fh) = sint (fw * fh)"

text \<open>\<^verbatim>\<open>fw // 2\<close> on an \<^verbatim>\<open>int32\<close>: floor division, the result is in range.\<close>

definition floor_half :: "int32 \<Rightarrow> int32" where
  "floor_half a = word_of_int (sint a div 2)"

text \<open>
  \<^verbatim>\<open>a / b\<close> for an \<^verbatim>\<open>int32\<close> \<open>a\<close> and the Python integer \<open>b = w // 2\<close>, which is never
  negative: both are converted to \<^verbatim>\<open>float64\<close> and divided by the rules of IEEE 754.
\<close>

definition truediv :: "int32 \<Rightarrow> nat \<Rightarrow> float64" where
  "truediv a b =
    (if b = 0 then (if 0 < sint a then PosInf else if sint a < 0 then NegInf else NaN)
     else Finite (of_int (sint a) / of_nat b))"

text \<open>
  \<^verbatim>\<open>cv2.cvtColor(frame, cv2.COLOR_BGR2GRAY)\<close>: same height and width, one channel. An
  empty image is refused with a \<^verbatim>\<open>cv2.error\<close>.
\<close>

definition gray_of :: "'p frame \<Rightarrow> 'p gray" where
  "gray_of f = \<lparr>shape = (rows f, cols f), samples = pixels f\<rparr>"

definition cvtColor :: "'p frame \<Rightarrow> error + 'p gray" where
  "cvtColor f = (if rows f = 0 \<or> cols f = 0 then Inl CvError else Inr (gray_of f))"

definition rectangle :: "'p frame \<Rightarrow> int32 \<times> int32 \<Rightarrow> int32 \<times> int32 \<Rightarrow> 'p frame" where
  "rectangle f p q = f\<lparr>drawn := drawn f @ [Rectangle p q (255, 0, 0) 2]\<rparr>"

definition putText :: "'p frame \<Rightarrow> float64 \<times> float64 \<Rightarrow> 'p frame" where
  "putText f t = f\<lparr>drawn := drawn f @ [PutText t (10, 30) (7 / 10) (0, 255, 0) 2]\<rparr>"

definition sentinel :: relpos where
  "sentinel = \<lparr>msg_x = Finite 0, msg_y = Finite 0, msg_z = PyFloat (Finite 0)\<rparr>"

text \<open>
  Lines 46 to 70, on the frame and its grey image: the result is the triple
  \<^verbatim>\<open>(msg_x, msg_y, msg_z)\<close> and the frame as it is handed to \<^verbatim>\<open>imshow\<close>.
\<close>

definition annotate :: "('p gray \<Rightarrow> rect list) \<Rightarrow> 'p frame \<Rightarrow> 'p gray \<Rightarrow> error + (relpos \<times> 'p frame)" where
  "annotate detect frame gray =
    (let faces = detect gray;
         (h, w) = shape gray
     in if length faces > 0 then
          (case py_max faces area of
             Inl e \<Rightarrow> Inl e
           | Inr (x, y, fw, fh) \<Rightarrow>
               (let cx = x + floor_half fw; cy = y + floor_half fh;
                    mx = truediv (cx - of_nat (w div 2)) (w div 2);
                    my = truediv (cy - of_nat (h div 2)) (h div 2);
                    mz = fw * fh
                in Inr (\<lparr>msg_x = mx, msg_y = my, msg_z = PyInt mz\<rparr>,
                        putText (rectangle frame (x, y) (x + fw, y + fh)) (mx, my))))
        else Inr (sentinel, frame))"

text \<open>Lines 44 to 70: the conversion, then the above.\<close>

definition process_frame :: "('p gray \<Rightarrow> rect list) \<Rightarrow> 'p frame \<Rightarrow> error + (relpos \<times> 'p frame)" where
  "process_frame detect frame =
    (case cvtColor frame of
       Inl e \<Rightarrow> Inl e
     | Inr gray \<Rightarrow> annotate detect frame gray)"

subsection \<open>The main loop (lines 39 to 77) and the script\<close>

definition emit :: "'p event list \<Rightarrow> 'p state \<Rightarrow> 'p state" where
  "emit evs s = s\<lparr>trace := trace s @ evs\<rparr>"

text \<open>
  The loop body, lines 40 to 77, from state \<open>s\<close>: either the loop is left (by one
  of the two \<^verbatim>\<open>break\<close>s, or by an exception), or it goes on. An iteration is counted as
  complete once it has reached the visibility query of line 76.
\<close>

datatype 'p step = Stop status "'p state" | Continue "'p state"

definition iteration :: "'p env \<Rightarrow> 'p state \<Rightarrow> 'p step" where
  "iteration env s =
    (case read env (reads_made s) of
       None \<Rightarrow> Stop Normal (emit [Read None] (s\<lparr>reads_made := Suc (reads_made s)\<rparr>))
     | Some frame \<Rightarrow>
        (let s0 = emit [Read (Some frame)] (s\<lparr>reads_made := Suc (reads_made s)\<rparr>)
         in case cvtColor frame of
              Inl e \<Rightarrow> Stop (Raised e) s0
            | Inr gray \<Rightarrow>
               (let s1 = emit [Detect gray] s0
                in case annotate (detectMultiScale env) frame gray of
                     Inl e \<Rightarrow> Stop (Raised e) s1
                   | Inr (msg, shown) \<Rightarrow>
                      (let v = getWindowProperty env (checks_made s1);
                           s2 = emit [Imshow shown, WaitKey, GetWindowProperty v]
                                  (s1\<lparr>checks_made := Suc (checks_made s1),
                                      iterations := Suc (iterations s1)\<rparr>)
                       in if v < 1 then Stop Normal s2 else Continue s2))))"

text \<open>\<^verbatim>\<open>while True\<close>: \<open>None\<close> is a loop that never ends.\<close>

partial_function (option) main_loop :: "'p env \<Rightarrow> 'p state \<Rightarrow> (status \<times> 'p state) option" where
  "main_loop env s =
    (case iteration env s of
       Stop st s' \<Rightarrow> Some (st, s')
     | Continue s' \<Rightarrow> main_loop env s')"

definition init :: "'p state" where
  "init = \<lparr>reads_made = 0, checks_made = 0, iterations = 0, trace = []\<rparr>"

text \<open>
  The whole script: the check of line 32, the loop, and the release of lines 81 and 82,
  which an exception in the loop skips.
\<close>

definition script :: "'p env \<Rightarrow> (status \<times> 'p state) option" where
  "script env =
    (if \<not> isOpened env then Some (Raised (RuntimeError ''Camera not accesible''), init)
     else (case main_loop env init of
             None \<Rightarrow> None
           | Some (Raised e, s) \<Rightarrow> Some (Raised e, s)
           | Some (Normal, s) \<Rightarrow> Some (Normal, emit [Release, DestroyAllWindows] s)))"

subsection \<open>Stubs for the external collaborators\<close>

text \<open>
  A detector that answers a fixed sequence of rectangles on every image; a source that
  yields the given frames and then no frame; a window that is reported not visible
  from the \<open>m\<close>-th query on; a frame with nothing drawn on it.
\<close>

definition stub_detector :: "rect list \<Rightarrow> 'p gray \<Rightarrow> rect list" where
  "stub_detector faces g = faces"

definition stub_source :: "'p frame list \<Rightarrow> nat \<Rightarrow> 'p frame option" where
  "stub_source frames k = (if k < length frames then Some (frames ! k) else None)"

definition stub_window :: "nat \<Rightarrow> nat \<Rightarrow> rat" where
  "stub_window m k = (if Suc k < m then 1 else 0)"

definition blank_frame :: "nat \<Rightarrow> nat \<Rightarrow> unit frame" where
  "blank_frame h w = \<lparr>rows = h, cols = w, pixels = (), drawn = []\<rparr>"

definition stub_env :: "bool \<Rightarrow> unit frame list \<Rightarrow> rect list \<Rightarrow> nat \<Rightarrow> unit env" where
  "stub_env opened frames faces m =
     \<lparr>isOpened = opened, read = stub_source frames,
      detectMultiScale = stub_detector faces, getWindowProperty = stub_window m\<rparr>"

subsection \<open>Notions of the specification\<close>

text \<open>
  The area the specification speaks of: width times height of a rectangle, as a
  number of pixels, without any wrap-around.
\<close>

fun width_times_height :: "rect \<Rightarrow> int" where
  "width_times_height (x, y, fw, fh) = sint fw * sint fh"

text \<open>
  The two events on which the loop is left by a \<^verbatim>\<open>break\<close>: a read that returns no
  frame (line 42), a visibility query answered below 1 (line 77).
\<close>

definition break_event :: "'p event \<Rightarrow> bool" where
  "break_event e = (case e of Read None \<Rightarrow> True | GetWindowProperty v \<Rightarrow> v < 1 | _ \<Rightarrow> False)"

section \<open>The per-frame transform\<close>

subsection \<open>Arithmetic on \<^verbatim>\<open>int32\<close>\<close>

text \<open>Sums, differences and products are exact as long as they stay in range.\<close>

lemma sint_minus_half:
  assumes n: "n < 2 ^ 31" and lo: "int n - 2 ^ 31 \<le> sint (c :: int32)"
  shows "sint (c - of_nat n) = sint c - int n"
proof -
  have sn: "sint (of_nat n :: int32) = int n"
  proof -
    have "sint (word_of_int (int n) :: int32) = signed_take_bit (LENGTH(32) - 1) (int n)"
      by (rule sint_sbintrunc')
    also have "\<dots> = int n"
      using n by (intro signed_take_bit_int_eq_self) auto
    finally show ?thesis by simp
  qed
  have up: "sint c < 2 ^ 31" using sint_lt [of c] by simp
  have "sint (c - of_nat n) = signed_take_bit (LENGTH(32) - 1) (sint c - sint (of_nat n :: int32))"
    by (rule sint_word_diff)
  also have "\<dots> = sint c - int n"
    unfolding sn using lo up by (intro signed_take_bit_int_eq_self) auto
  finally show ?thesis .
qed

lemma sint_floor_half: "sint (floor_half a) = sint a div 2"
proof -
  have r: "- (2 ^ 31) \<le> sint a" "sint a < 2 ^ 31" using sint_ge [of a] sint_lt [of a] by simp_all
  have "sint (floor_half a) = signed_take_bit (LENGTH(32) - 1) (sint a div 2)"
    unfolding floor_half_def by (rule sint_sbintrunc')
  also have "\<dots> = sint a div 2"
    using r by (intro signed_take_bit_int_eq_self) auto
  finally show ?thesis .
qed

lemma sint_product:
  assumes "- (2 ^ 31) \<le> sint a * sint b" and "sint a * sint b < 2 ^ 31"
  shows "sint (a * b :: int32) = sint a * sint b"
proof -
  have "sint (a * b) = signed_take_bit (LENGTH(32) - 1) (sint a * sint b)"
    by (rule sint_word_mult)
  also have "\<dots> = sint a * sint b"
    using assms by (intro signed_take_bit_int_eq_self) auto
  finally show ?thesis .
qed

lemma centre_without_overflow:
  assumes "- (2 ^ 31) \<le> sint x + sint fw div 2" and "sint x + sint fw div 2 < 2 ^ 31"
  shows "sint (x + floor_half fw) = sint x + sint fw div 2"
proof -
  have "sint (x + floor_half fw) = signed_take_bit (LENGTH(32) - 1) (sint x + sint (floor_half fw))"
    by (rule sint_word_add)
  also have "\<dots> = sint x + sint fw div 2"
    unfolding sint_floor_half using assms by (intro signed_take_bit_int_eq_self) auto
  finally show ?thesis .
qed

lemma truediv_finite: "b \<noteq> 0 \<Longrightarrow> truediv a b = Finite (of_int (sint a) / of_nat b)"
  by (simp add: truediv_def)

lemma truediv_exact:
  assumes "n \<noteq> 0" and "n < 2 ^ 31" and "int n - 2 ^ 31 \<le> sint c"
  shows "truediv (c - of_nat n) n = Finite ((of_int (sint c) - of_nat n) / of_nat n)"
proof -
  have "(of_int (sint (c - of_nat n)) :: rat) = of_int (sint c - int n)"
    by (simp only: sint_minus_half [OF assms(2,3)])
  also have "\<dots> = of_int (sint c) - of_nat n"
    by (simp only: of_int_diff of_int_of_nat_eq)
  finally have e: "(of_int (sint (c - of_nat n)) :: rat) = of_int (sint c) - of_nat n" .
  show ?thesis
    by (simp only: truediv_finite [OF assms(1)] e)
qed

lemma truediv_even:
  assumes "n div 2 \<noteq> 0" and "n div 2 < 2 ^ 31" and "int (n div 2) - 2 ^ 31 \<le> sint c"
    and "even n"
  shows "truediv (c - of_nat (n div 2)) (n div 2)
           = Finite ((of_int (sint c) - of_nat n / 2) / (of_nat n / 2))"
proof -
  from \<open>even n\<close> obtain k where "n = 2 * k" by (auto elim: evenE)
  then have half: "(of_nat (n div 2) :: rat) = of_nat n / 2" by simp
  show ?thesis
    by (simp only: truediv_exact [OF assms(1,2,3)] half)
qed

subsection \<open>Selection of the largest face\<close>

lemma max_from_split:
  "\<exists>pre post. best # xs = pre @ max_from key best xs # post
     \<and> (\<forall>r \<in> set pre. key r < key (max_from key best xs))
     \<and> (\<forall>r \<in> set post. key r \<le> key (max_from key best xs))"
proof (induction xs arbitrary: best)
  case Nil
  have "[best] = [] @ max_from key best [] # []" by simp
  then show ?case by fastforce
next
  case (Cons x xs)
  show ?case
  proof (cases "key x > key best")
    case True
    define m where "m = max_from key x xs"
    have mf: "max_from key best (x # xs) = m" using True by (simp add: m_def)
    from Cons.IH [of x] obtain pre post where
      d: "x # xs = pre @ m # post"
      and lt: "\<forall>r \<in> set pre. key r < key m"
      and le: "\<forall>r \<in> set post. key r \<le> key m" unfolding m_def by blast
    have "x \<in> set (pre @ m # post)" using d by (metis list.set_intros(1))
    then have "key x \<le> key m" using lt le by auto
    then have "key best < key m" using True by simp
    then have B: "\<forall>r \<in> set (best # pre). key r < key m" using lt by simp
    have A: "best # x # xs = (best # pre) @ m # post" using d by simp
    show ?thesis unfolding mf using A B le by blast
  next
    case False
    define m where "m = max_from key best xs"
    have mf: "max_from key best (x # xs) = m" using False by (simp add: m_def)
    from Cons.IH [of best] obtain pre post where
      d: "best # xs = pre @ m # post"
      and lt: "\<forall>r \<in> set pre. key r < key m"
      and le: "\<forall>r \<in> set post. key r \<le> key m" unfolding m_def by blast
    show ?thesis
    proof (cases pre)
      case Nil
      then have e: "m = best" "post = xs" using d by simp_all
      have A: "best # x # xs = [] @ m # (x # xs)" using e by simp
      have C: "\<forall>r \<in> set (x # xs). key r \<le> key m" using False le e by simp
      have B: "\<forall>r \<in> set ([]::'a list). key r < key m" by simp
      show ?thesis unfolding mf using A B C by blast
    next
      case (Cons b pre')
      then have b: "b = best" and xs: "xs = pre' @ m # post" using d by simp_all
      have "key best < key m" using lt Cons b by simp
      then have "key x < key m" using False by simp
      then have B: "\<forall>r \<in> set (best # x # pre'). key r < key m" using lt Cons b by simp
      have A: "best # x # xs = (best # x # pre') @ m # post"
        using xs by simp
      show ?thesis unfolding mf using A B le by blast
    qed
  qed
qed

lemma py_max_nonempty: "py_max faces key = Inr r \<Longrightarrow> faces \<noteq> []"
  by (auto simp: py_max_def)


lemma area_without_overflow:
  assumes "- (2 ^ 31) \<le> width_times_height r" and "width_times_height r < 2 ^ 31"
  shows "area r = width_times_height r"
proof -
  obtain x y fw fh where r: "r = (x, y, fw, fh)" by (cases r) auto
  show ?thesis using assms unfolding r by (simp add: sint_product)
qed

text \<open>
  As long as no product \<open>fw * fh\<close> leaves the range of \<^verbatim>\<open>int32\<close>, the selected face is
  of maximal width times height, and the first of those in the detector's order.
\<close>

lemma selection_maximal_without_overflow:
  assumes ne: "faces \<noteq> []"
    and fit: "\<forall>r \<in> set faces. - (2 ^ 31) \<le> width_times_height r \<and> width_times_height r < 2 ^ 31"
  shows "\<exists>s i. py_max faces area = Inr s \<and> i < length faces \<and> faces ! i = s
           \<and> (\<forall>j < length faces. width_times_height (faces ! j) \<le> width_times_height s)
           \<and> (\<forall>j < i. width_times_height (faces ! j) < width_times_height s)"
proof -
  from ne obtain f rest where fr: "faces = f # rest" by (cases faces) auto
  define s where "s = max_from area f rest"
  have pm: "py_max faces area = Inr s" by (simp add: py_max_def fr s_def)
  from max_from_split [of f rest area] obtain pre post where
    d: "faces = pre @ s # post"
    and lt: "\<forall>r \<in> set pre. area r < area s"
    and le: "\<forall>r \<in> set post. area r \<le> area s" unfolding s_def fr by blast
  have eq: "area r = width_times_height r" if "r \<in> set faces" for r
    using fit that area_without_overflow by blast
  have sin: "s \<in> set faces" using d by simp
  have i: "length pre < length faces" "faces ! length pre = s" using d by simp_all
  have before: "\<forall>j < length pre. width_times_height (faces ! j) < width_times_height s"
  proof (intro allI impI)
    fix j assume j: "j < length pre"
    then have m: "faces ! j \<in> set pre" "faces ! j \<in> set faces" using d by (auto simp: nth_append)
    then have "area (faces ! j) < area s" using lt by blast
    then show "width_times_height (faces ! j) < width_times_height s"
      using eq [OF m(2)] eq [OF sin] by simp
  qed
  have all: "\<forall>j < length faces. width_times_height (faces ! j) \<le> width_times_height s"
  proof (intro allI impI)
    fix j assume j: "j < length faces"
    then have m: "faces ! j \<in> set faces" by simp
    then have "area (faces ! j) \<le> area s" using lt le d by auto
    then show "width_times_height (faces ! j) \<le> width_times_height s"
      using eq [OF m] eq [OF sin] by simp
  qed
  show ?thesis using pm i before all by blast
qed


subsection \<open>Offsets and area of the selected face\<close>

lemma annotate_selected:
  assumes sel: "py_max (detect gray) area = Inr (x, y, fw, fh)"
    and sh: "shape gray = (h, w)"
  shows "annotate detect frame gray =
           Inr (\<lparr>msg_x = truediv (x + floor_half fw - of_nat (w div 2)) (w div 2),
                 msg_y = truediv (y + floor_half fh - of_nat (h div 2)) (h div 2),
                 msg_z = PyInt (fw * fh)\<rparr>,
                putText (rectangle frame (x, y) (x + fw, y + fh))
                  (truediv (x + floor_half fw - of_nat (w div 2)) (w div 2),
                   truediv (y + floor_half fh - of_nat (h div 2)) (h div 2)))"
proof -
  have ne: "detect gray \<noteq> []" using sel by (rule py_max_nonempty)
  show ?thesis using ne by (simp add: annotate_def Let_def sh sel)
qed

lemma cvtColor_ok: "0 < rows frame \<Longrightarrow> 0 < cols frame \<Longrightarrow> cvtColor frame = Inr (gray_of frame)"
  by (simp add: cvtColor_def)

text \<open>The face branch of a frame that is not empty.\<close>

lemma process_frame_selected:
  assumes sel: "py_max (detect (gray_of frame)) area = Inr (x, y, fw, fh)"
    and h: "0 < rows frame" and w: "0 < cols frame"
  shows "process_frame detect frame =
           Inr (\<lparr>msg_x = truediv (x + floor_half fw - of_nat (cols frame div 2)) (cols frame div 2),
                 msg_y = truediv (y + floor_half fh - of_nat (rows frame div 2)) (rows frame div 2),
                 msg_z = PyInt (fw * fh)\<rparr>,
                putText (rectangle frame (x, y) (x + fw, y + fh))
                  (truediv (x + floor_half fw - of_nat (cols frame div 2)) (cols frame div 2),
                   truediv (y + floor_half fh - of_nat (rows frame div 2)) (rows frame div 2)))"
proof -
  have sh: "shape (gray_of frame) = (rows frame, cols frame)" by (simp add: gray_of_def)
  show ?thesis
    unfolding process_frame_def cvtColor_ok [OF h w]
    using annotate_selected [where detect = detect and gray = "gray_of frame", OF sel sh]
    by simp
qed

lemma process_frame_empty:
  assumes "cvtColor frame = Inr gray" and "detect gray = []"
  shows "process_frame detect frame = Inr (sentinel, frame)"
  using assms by (simp add: process_frame_def annotate_def Let_def split: prod.splits)


text \<open>
  Claim C1, as stated, fails for an odd frame width. With \<open>W = 641\<close> and a selected face
  of centre \<open>cx = 480\<close> the script computes \<open>(480 - 320) / 320 = 1/2\<close>, where
  \<open>(cx - W/2) / (W/2)\<close> is \<open>319/641\<close>.
\<close>

theorem offset_not_exact_for_odd_width:
  "process_frame (stub_detector [(430, 190, 100, 100)]) (blank_frame 480 641)
    = Inr (\<lparr>msg_x = Finite (1 / 2), msg_y = Finite 0, msg_z = PyInt 10000\<rparr>,
           \<lparr>rows = 480, cols = 641, pixels = (),
            drawn = [Rectangle (430, 190) (530, 290) (255, 0, 0) 2,
                     PutText (Finite (1 / 2), Finite 0) (10, 30) (7 / 10) (0, 255, 0) 2]\<rparr>)
   \<and> (1 / 2 :: rat) \<noteq> (480 - 641 / 2) / (641 / 2)"
  by (simp add: process_frame_def annotate_def stub_detector_def blank_frame_def cvtColor_def
      gray_of_def py_max_def truediv_def floor_half_def rectangle_def putText_def Let_def)

text \<open>
  Claim C1, amended. For every frame of width \<open>W \<ge> 2\<close> and height \<open>H \<ge> 2\<close> and every
  selected face \<open>(x, y, fw, fh)\<close>, with the floored centre \<open>cx = x + fw div 2\<close>,
  \<open>cy = y + fh div 2\<close> as the script computes it, the offsets are the quotients by the
  floored halves, \<open>(cx - W div 2) / (W div 2)\<close> and \<open>(cy - H div 2) / (H div 2)\<close>, the
  difference being taken in \<^verbatim>\<open>int32\<close>: it is the exact difference unless that is below
  \<open>- 2 ^ 31\<close>, so for every centre that is not negative. Where the width is even this
  is \<open>(cx - W/2) / (W/2)\<close>, and likewise for an even height.
\<close>

theorem offset_uses_floored_halves:
  assumes sel: "py_max (detect (gray_of frame)) area = Inr (x, y, fw, fh)"
    and w: "2 \<le> cols frame" and h: "2 \<le> rows frame"
  shows "\<exists>rp shown. process_frame detect frame = Inr (rp, shown)
     \<and> msg_x rp = Finite (of_int (sint (x + floor_half fw - of_nat (cols frame div 2)))
                            / of_nat (cols frame div 2))
     \<and> msg_y rp = Finite (of_int (sint (y + floor_half fh - of_nat (rows frame div 2)))
                            / of_nat (rows frame div 2))
     \<and> (cols frame div 2 < 2 ^ 31 \<and> int (cols frame div 2) - 2 ^ 31 \<le> sint (x + floor_half fw) \<longrightarrow>
          msg_x rp = Finite ((of_int (sint (x + floor_half fw)) - of_nat (cols frame div 2))
                               / of_nat (cols frame div 2))
          \<and> (even (cols frame) \<longrightarrow>
               msg_x rp = Finite ((of_int (sint (x + floor_half fw)) - of_nat (cols frame) / 2)
                                    / (of_nat (cols frame) / 2))))
     \<and> (rows frame div 2 < 2 ^ 31 \<and> int (rows frame div 2) - 2 ^ 31 \<le> sint (y + floor_half fh) \<longrightarrow>
          msg_y rp = Finite ((of_int (sint (y + floor_half fh)) - of_nat (rows frame div 2))
                               / of_nat (rows frame div 2))
          \<and> (even (rows frame) \<longrightarrow>
               msg_y rp = Finite ((of_int (sint (y + floor_half fh)) - of_nat (rows frame) / 2)
                                    / (of_nat (rows frame) / 2))))"
proof -
  have w0: "cols frame div 2 \<noteq> 0" and h0: "rows frame div 2 \<noteq> 0"
    and wp: "0 < cols frame" and hp: "0 < rows frame"
    using w h by auto
  define cx where "cx = x + floor_half fw"
  define cy where "cy = y + floor_half fh"
  from process_frame_selected [where detect = detect and frame = frame, OF sel hp wp]
  obtain rp shown where pf: "process_frame detect frame = Inr (rp, shown)"
    and mx: "msg_x rp = truediv (cx - of_nat (cols frame div 2)) (cols frame div 2)"
    and my: "msg_y rp = truediv (cy - of_nat (rows frame div 2)) (rows frame div 2)"
    unfolding cx_def cy_def by simp
  have x1: "msg_x rp = Finite (of_int (sint (cx - of_nat (cols frame div 2)))
                            / of_nat (cols frame div 2))"
    unfolding mx by (rule truediv_finite [OF w0])
  have y1: "msg_y rp = Finite (of_int (sint (cy - of_nat (rows frame div 2)))
                            / of_nat (rows frame div 2))"
    unfolding my by (rule truediv_finite [OF h0])
  have x2: "cols frame div 2 < 2 ^ 31 \<and> int (cols frame div 2) - 2 ^ 31 \<le> sint cx \<longrightarrow>
          msg_x rp = Finite ((of_int (sint cx) - of_nat (cols frame div 2))
                               / of_nat (cols frame div 2))
          \<and> (even (cols frame) \<longrightarrow>
               msg_x rp = Finite ((of_int (sint cx) - of_nat (cols frame) / 2)
                                    / (of_nat (cols frame) / 2)))"
    unfolding mx using truediv_exact [OF w0, of cx] truediv_even [OF w0, of cx] by blast
  have y2: "rows frame div 2 < 2 ^ 31 \<and> int (rows frame div 2) - 2 ^ 31 \<le> sint cy \<longrightarrow>
          msg_y rp = Finite ((of_int (sint cy) - of_nat (rows frame div 2))
                               / of_nat (rows frame div 2))
          \<and> (even (rows frame) \<longrightarrow>
               msg_y rp = Finite ((of_int (sint cy) - of_nat (rows frame) / 2)
                                    / (of_nat (rows frame) / 2)))"
    unfolding my using truediv_exact [OF h0, of cy] truediv_even [OF h0, of cy] by blast
  show ?thesis
    using pf x1 y1 x2 y2 unfolding cx_def cy_def by blast
qed

text \<open>The literal example of the claim: \<open>W = 640\<close> and \<open>cx = 480\<close> give \<open>0.5\<close>.\<close>

theorem offset_uses_floored_halves_witness:
  "py_max (stub_detector [(430, 190, 100, 100)] (gray_of (blank_frame 480 640))) area
      = Inr (430, 190, 100, 100)
   \<and> 2 \<le> cols (blank_frame 480 640) \<and> 2 \<le> rows (blank_frame 480 640)
   \<and> even (cols (blank_frame 480 640))
   \<and> sint (430 + floor_half 100 :: int32) = 480
   \<and> (\<exists>rp shown. process_frame (stub_detector [(430, 190, 100, 100)]) (blank_frame 480 640)
                     = Inr (rp, shown)
          \<and> msg_x rp = Finite ((480 - 640 / 2) / (640 / 2))
          \<and> msg_x rp = Finite (1 / 2) \<and> msg_y rp = Finite 0)"
proof -
  let ?F = "blank_frame 480 640"
  let ?d = "stub_detector [(430, 190, 100, 100)] :: unit gray \<Rightarrow> rect list"
  have sel: "py_max (?d (gray_of ?F)) area = Inr (430, 190, 100, 100)"
    by (simp add: stub_detector_def py_max_def)
  have w: "2 \<le> cols ?F" and h: "2 \<le> rows ?F" and ev: "even (cols ?F)"
    by (simp_all add: blank_frame_def)
  have cx: "sint (430 + floor_half 100 :: int32) = 480" by (simp add: floor_half_def)
  have cy: "sint (190 + floor_half 100 :: int32) = 240" by (simp add: floor_half_def)
  have cw: "cols ?F = 640" and rw: "rows ?F = 480" by (simp_all add: blank_frame_def)
  from offset_uses_floored_halves [where detect = ?d and frame = ?F, OF sel w h]
  obtain rp shown where pf: "process_frame ?d ?F = Inr (rp, shown)"
    and mx: "cols ?F div 2 < 2 ^ 31 \<and> int (cols ?F div 2) - 2 ^ 31 \<le> sint (430 + floor_half 100 :: int32) \<longrightarrow>
          msg_x rp = Finite ((of_int (sint (430 + floor_half 100 :: int32)) - of_nat (cols ?F div 2))
                               / of_nat (cols ?F div 2))
          \<and> (even (cols ?F) \<longrightarrow>
               msg_x rp = Finite ((of_int (sint (430 + floor_half 100 :: int32)) - of_nat (cols ?F) / 2)
                                    / (of_nat (cols ?F) / 2)))"
    and my: "rows ?F div 2 < 2 ^ 31 \<and> int (rows ?F div 2) - 2 ^ 31 \<le> sint (190 + floor_half 100 :: int32) \<longrightarrow>
          msg_y rp = Finite ((of_int (sint (190 + floor_half 100 :: int32)) - of_nat (rows ?F div 2))
                               / of_nat (rows ?F div 2))
          \<and> (even (rows ?F) \<longrightarrow>
               msg_y rp = Finite ((of_int (sint (190 + floor_half 100 :: int32)) - of_nat (rows ?F) / 2)
                                    / (of_nat (rows ?F) / 2)))"
    by blast
  have a: "msg_x rp = Finite ((480 - 640 / 2) / (640 / 2))"
    using mx unfolding cx cw by simp
  have b: "msg_y rp = Finite 0"
    using my unfolding cy rw by simp
  have c: "msg_x rp = Finite (1 / 2)" using a by simp
  show ?thesis using sel w h ev cx pf a b c by blast
qed

text \<open>
  Claim C4. A selected face whose computed centre is exactly the centre of the frame
  (\<open>2 * cx = W\<close> and \<open>2 * cy = H\<close>, on a frame that has at least one row and one column)
  has both offsets equal to zero, whatever its width and height.
\<close>

theorem centred_face_has_zero_offset:
  assumes sel: "py_max (detect (gray_of frame)) area = Inr (x, y, fw, fh)"
    and w: "0 < cols frame" and h: "0 < rows frame"
    and cx: "2 * sint (x + floor_half fw) = int (cols frame)"
    and cy: "2 * sint (y + floor_half fh) = int (rows frame)"
  shows "\<exists>rp shown. process_frame detect frame = Inr (rp, shown)
           \<and> msg_x rp = Finite 0 \<and> msg_y rp = Finite 0"
proof -
  have centre: "c - of_nat (n div 2) = 0 \<and> n div 2 \<noteq> 0"
    if "2 * sint c = int n" "0 < n" for c :: int32 and n :: nat
  proof -
    from that have e: "int (n div 2) = sint c" and nz: "n div 2 \<noteq> 0" by presburger+
    have "(of_nat (n div 2) :: int32) = word_of_int (int (n div 2))" by simp
    also have "\<dots> = word_of_int (sint c)" by (simp only: e)
    also have "\<dots> = c" by simp
    finally show ?thesis using nz by simp
  qed
  note pf = process_frame_selected [where detect = detect and frame = frame, OF sel h w]
  from centre [OF cx w] centre [OF cy h] show ?thesis
    unfolding pf by (simp add: truediv_def)
qed

theorem centred_face_has_zero_offset_witness:
  "py_max (stub_detector [(285, 200, 70, 81)] (gray_of (blank_frame 480 640))) area
      = Inr (285, 200, 70, 81)
   \<and> 0 < cols (blank_frame 480 640) \<and> 0 < rows (blank_frame 480 640)
   \<and> 2 * sint (285 + floor_half 70 :: int32) = int (cols (blank_frame 480 640))
   \<and> 2 * sint (200 + floor_half 81 :: int32) = int (rows (blank_frame 480 640))
   \<and> (\<exists>rp shown. process_frame (stub_detector [(285, 200, 70, 81)]) (blank_frame 480 640)
                     = Inr (rp, shown) \<and> msg_x rp = Finite 0 \<and> msg_y rp = Finite 0)"
proof -
  let ?F = "blank_frame 480 640"
  let ?d = "stub_detector [(285, 200, 70, 81)] :: unit gray \<Rightarrow> rect list"
  have sel: "py_max (?d (gray_of ?F)) area = Inr (285, 200, 70, 81)"
    by (simp add: stub_detector_def py_max_def)
  have w: "0 < cols ?F" and h: "0 < rows ?F" by (simp_all add: blank_frame_def)
  have cx: "2 * sint (285 + floor_half 70 :: int32) = int (cols ?F)"
    by (simp add: blank_frame_def floor_half_def)
  have cy: "2 * sint (200 + floor_half 81 :: int32) = int (rows ?F)"
    by (simp add: blank_frame_def floor_half_def)
  from centred_face_has_zero_offset [where detect = ?d and frame = ?F, OF sel w h cx cy]
  show ?thesis using sel w h cx cy by blast
qed

text \<open>
  As long as the product \<open>fw * fh\<close> stays in the range of \<^verbatim>\<open>int32\<close>, the third component
  is that product.
\<close>

lemma area_exact_without_overflow:
  assumes sel: "py_max (detect (gray_of frame)) area = Inr (x, y, fw, fh)"
    and w: "0 < cols frame" and h: "0 < rows frame"
    and fit: "- (2 ^ 31) \<le> sint fw * sint fh" "sint fw * sint fh < 2 ^ 31"
  shows "\<exists>rp shown m. process_frame detect frame = Inr (rp, shown) \<and> msg_z rp = PyInt m
           \<and> sint m = sint fw * sint fh"
proof -
  note pf = process_frame_selected [where detect = detect and frame = frame, OF sel h w]
  show ?thesis unfolding pf using sint_product [OF fit] by simp
qed





section \<open>The main loop\<close>

subsection \<open>One iteration\<close>

lemma iteration_continue:
  assumes rd: "read env (reads_made s) = Some frame"
    and ok: "process_frame (detectMultiScale env) frame = Inr r"
    and vis: "1 \<le> getWindowProperty env (checks_made s)"
  shows "\<exists>s'. iteration env s = Continue s' \<and> reads_made s' = Suc (reads_made s)
           \<and> checks_made s' = Suc (checks_made s) \<and> iterations s' = Suc (iterations s)"
proof -
  from ok obtain gray where cv: "cvtColor frame = Inr gray"
    and an: "annotate (detectMultiScale env) frame gray = Inr r"
    by (auto simp: process_frame_def split: sum.splits)
  show ?thesis
    using vis by (cases r) (simp add: iteration_def rd cv an Let_def emit_def)
qed

lemma iteration_closed:
  assumes rd: "read env (reads_made s) = Some frame"
    and ok: "process_frame (detectMultiScale env) frame = Inr r"
    and vis: "getWindowProperty env (checks_made s) < 1"
  shows "\<exists>s'. iteration env s = Stop Normal s' \<and> reads_made s' = Suc (reads_made s)
           \<and> checks_made s' = Suc (checks_made s) \<and> iterations s' = Suc (iterations s)
           \<and> last (trace s') = GetWindowProperty (getWindowProperty env (checks_made s))"
proof -
  from ok obtain gray where cv: "cvtColor frame = Inr gray"
    and an: "annotate (detectMultiScale env) frame gray = Inr r"
    by (auto simp: process_frame_def split: sum.splits)
  show ?thesis
    using vis by (cases r) (simp add: iteration_def rd cv an Let_def emit_def)
qed

lemma iteration_no_frame:
  assumes rd: "read env (reads_made s) = None"
  shows "\<exists>s'. iteration env s = Stop Normal s' \<and> reads_made s' = Suc (reads_made s)
           \<and> checks_made s' = checks_made s \<and> iterations s' = iterations s
           \<and> last (trace s') = Read None"
  by (simp add: iteration_def rd emit_def)

text \<open>
  What an iteration adds to the trace: never a release, and when it leaves the loop
  normally its last event is the failed read or a visibility query answered below 1.
\<close>

lemma iteration_trace:
  assumes "iteration env s = Stop st s' \<or> iteration env s = Continue s'"
  shows "\<exists>evs. trace s' = trace s @ evs \<and> Release \<notin> set evs \<and> DestroyAllWindows \<notin> set evs"
  using assms
  by (auto simp: iteration_def emit_def Let_def split: option.splits sum.splits prod.splits if_splits)

lemma iteration_break:
  assumes "iteration env s = Stop Normal s'"
  shows "trace s' \<noteq> [] \<and> break_event (last (trace s'))"
  using assms
  by (auto simp: iteration_def emit_def Let_def break_event_def
      split: option.splits sum.splits prod.splits if_splits)

subsection \<open>Runs of the loop\<close>

lemma main_loop_Continue: "iteration env s = Continue s' \<Longrightarrow> main_loop env s = main_loop env s'"
  by (subst main_loop.simps) simp

lemma main_loop_Stop: "iteration env s = Stop st s' \<Longrightarrow> main_loop env s = Some (st, s')"
  by (subst main_loop.simps) simp

text \<open>\<open>n\<close> iterations that go on: the loop is then where it would be if started there.\<close>

lemma main_loop_steps:
  assumes "\<forall>k<n. \<exists>frame r. read env (reads_made s + k) = Some frame
              \<and> process_frame (detectMultiScale env) frame = Inr r
              \<and> 1 \<le> getWindowProperty env (checks_made s + k)"
  shows "\<exists>s'. main_loop env s = main_loop env s' \<and> reads_made s' = reads_made s + n
           \<and> checks_made s' = checks_made s + n \<and> iterations s' = iterations s + n"
  using assms
proof (induction n arbitrary: s)
  case 0
  show ?case by (intro exI [of _ s]) simp
next
  case (Suc n)
  from Suc.prems have "\<exists>frame r. read env (reads_made s + 0) = Some frame
              \<and> process_frame (detectMultiScale env) frame = Inr r
              \<and> 1 \<le> getWindowProperty env (checks_made s + 0)" by blast
  then obtain frame r where rd: "read env (reads_made s) = Some frame"
    and ok: "process_frame (detectMultiScale env) frame = Inr r"
    and vis: "1 \<le> getWindowProperty env (checks_made s)" by auto
  from iteration_continue [OF rd ok vis] obtain s1 where
    it: "iteration env s = Continue s1" and c1: "reads_made s1 = Suc (reads_made s)"
    "checks_made s1 = Suc (checks_made s)" "iterations s1 = Suc (iterations s)" by blast
  have "\<forall>k<n. \<exists>frame r. read env (reads_made s1 + k) = Some frame
              \<and> process_frame (detectMultiScale env) frame = Inr r
              \<and> 1 \<le> getWindowProperty env (checks_made s1 + k)"
  proof (intro allI impI)
    fix k assume "k < n"
    then have "Suc k < Suc n" by simp
    with Suc.prems show "\<exists>frame r. read env (reads_made s1 + k) = Some frame
              \<and> process_frame (detectMultiScale env) frame = Inr r
              \<and> 1 \<le> getWindowProperty env (checks_made s1 + k)"
      unfolding c1 by (metis add_Suc_shift)
  qed
  from Suc.IH [OF this] obtain s' where
    "main_loop env s1 = main_loop env s'" "reads_made s' = reads_made s1 + n"
    "checks_made s' = checks_made s1 + n" "iterations s' = iterations s1 + n" by blast
  then show ?case using main_loop_Continue [OF it] c1 by (intro exI [of _ s']) simp
qed

lemma loop_ends_on_failed_read:
  assumes run: "\<forall>k<n. \<exists>frame r. read env (reads_made s + k) = Some frame
              \<and> process_frame (detectMultiScale env) frame = Inr r
              \<and> 1 \<le> getWindowProperty env (checks_made s + k)"
    and fail: "read env (reads_made s + n) = None"
  shows "\<exists>s'. main_loop env s = Some (Normal, s') \<and> reads_made s' = Suc (reads_made s + n)
           \<and> checks_made s' = checks_made s + n \<and> iterations s' = iterations s + n
           \<and> last (trace s') = Read None"
proof -
  from main_loop_steps [OF run] obtain s1 where
    eq: "main_loop env s = main_loop env s1" and c: "reads_made s1 = reads_made s + n"
    "checks_made s1 = checks_made s + n" "iterations s1 = iterations s + n" by blast
  have "read env (reads_made s1) = None" using fail c by simp
  from iteration_no_frame [OF this] obtain s' where
    "iteration env s1 = Stop Normal s'" "reads_made s' = Suc (reads_made s1)"
    "checks_made s' = checks_made s1" "iterations s' = iterations s1"
    "last (trace s') = Read None" by blast
  then show ?thesis using eq c main_loop_Stop [of env s1 Normal s'] by (intro exI [of _ s']) simp
qed

lemma loop_ends_on_closed_window:
  assumes run: "\<forall>k<n. \<exists>frame r. read env (reads_made s + k) = Some frame
              \<and> process_frame (detectMultiScale env) frame = Inr r
              \<and> 1 \<le> getWindowProperty env (checks_made s + k)"
    and rd: "read env (reads_made s + n) = Some frame"
    and ok: "process_frame (detectMultiScale env) frame = Inr r"
    and closed: "getWindowProperty env (checks_made s + n) < 1"
  shows "\<exists>s'. main_loop env s = Some (Normal, s') \<and> reads_made s' = Suc (reads_made s + n)
           \<and> checks_made s' = Suc (checks_made s + n) \<and> iterations s' = Suc (iterations s + n)
           \<and> last (trace s') = GetWindowProperty (getWindowProperty env (checks_made s + n))"
proof -
  from main_loop_steps [OF run] obtain s1 where
    eq: "main_loop env s = main_loop env s1" and c: "reads_made s1 = reads_made s + n"
    "checks_made s1 = checks_made s + n" "iterations s1 = iterations s + n" by blast
  have rd1: "read env (reads_made s1) = Some frame" using rd c by simp
  have cl1: "getWindowProperty env (checks_made s1) < 1" using closed c by simp
  from iteration_closed [OF rd1 ok cl1] obtain s' where
    "iteration env s1 = Stop Normal s'" "reads_made s' = Suc (reads_made s1)"
    "checks_made s' = Suc (checks_made s1)" "iterations s' = Suc (iterations s1)"
    "last (trace s') = GetWindowProperty (getWindowProperty env (checks_made s1))" by blast
  then show ?thesis using eq c main_loop_Stop [of env s1 Normal s'] by (intro exI [of _ s']) simp
qed

text \<open>Partial correctness, by induction on the loop as a least fixed point.\<close>

lemma main_loop_trace:
  assumes fin: "main_loop env s = Some r"
  shows "\<exists>evs. trace (snd r) = trace s @ evs \<and> Release \<notin> set evs \<and> DestroyAllWindows \<notin> set evs"
proof (rule main_loop.raw_induct [where P = "\<lambda>env s r. \<exists>evs. trace (snd r) = trace s @ evs
          \<and> Release \<notin> set evs \<and> DestroyAllWindows \<notin> set evs", OF _ fin])
  fix loop :: "'a env \<Rightarrow> 'a state \<Rightarrow> (status \<times> 'a state) option" and env s r
  assume IH: "\<And>env s r. loop env s = Some r \<Longrightarrow>
          \<exists>evs. trace (snd r) = trace s @ evs \<and> Release \<notin> set evs \<and> DestroyAllWindows \<notin> set evs"
    and step: "(case iteration env s of Stop st s' \<Rightarrow> Some (st, s') | Continue s' \<Rightarrow> loop env s')
                 = Some r"
  show "\<exists>evs. trace (snd r) = trace s @ evs \<and> Release \<notin> set evs \<and> DestroyAllWindows \<notin> set evs"
  proof (cases "iteration env s")
    case (Stop st s')
    then have "r = (st, s')" using step by simp
    then show ?thesis using iteration_trace [of env s st s'] Stop by simp
  next
    case (Continue s')
    then have "loop env s' = Some r" using step by simp
    from IH [OF this] obtain evs where
      a: "trace (snd r) = trace s' @ evs" "Release \<notin> set evs" "DestroyAllWindows \<notin> set evs"
      by blast
    from iteration_trace [of env s Normal s'] Continue obtain evs0 where
      b: "trace s' = trace s @ evs0" "Release \<notin> set evs0" "DestroyAllWindows \<notin> set evs0"
      by blast
    have "trace (snd r) = trace s @ (evs0 @ evs)" using a b by simp
    moreover have "Release \<notin> set (evs0 @ evs)" "DestroyAllWindows \<notin> set (evs0 @ evs)"
      using a b by simp_all
    ultimately show ?thesis by blast
  qed
qed

lemma main_loop_break:
  assumes fin: "main_loop env s = Some r"
  shows "fst r = Normal \<longrightarrow> trace (snd r) \<noteq> [] \<and> break_event (last (trace (snd r)))"
proof (rule main_loop.raw_induct [where P = "\<lambda>env s r. fst r = Normal \<longrightarrow>
          trace (snd r) \<noteq> [] \<and> break_event (last (trace (snd r)))", OF _ fin])
  fix loop :: "'a env \<Rightarrow> 'a state \<Rightarrow> (status \<times> 'a state) option" and env s r
  assume IH: "\<And>env s r. loop env s = Some r \<Longrightarrow>
          fst r = Normal \<longrightarrow> trace (snd r) \<noteq> [] \<and> break_event (last (trace (snd r)))"
    and step: "(case iteration env s of Stop st s' \<Rightarrow> Some (st, s') | Continue s' \<Rightarrow> loop env s')
                 = Some r"
  show "fst r = Normal \<longrightarrow> trace (snd r) \<noteq> [] \<and> break_event (last (trace (snd r)))"
  proof (cases "iteration env s")
    case (Stop st s')
    then have "r = (st, s')" using step by simp
    then show ?thesis using iteration_break [of env s s'] Stop by auto
  next
    case (Continue s')
    then have "loop env s' = Some r" using step by simp
    then show ?thesis by (rule IH)
  qed
qed

text \<open>A frame of 480 by 640 with one face is processed without an exception.\<close>

lemma stub_process_ok:
  "\<exists>r. process_frame (stub_detector [(430, 190, 100, 100)]) (blank_frame 480 640) = Inr r"
  by (simp add: process_frame_def annotate_def stub_detector_def blank_frame_def cvtColor_def
      gray_of_def py_max_def Let_def)

subsection \<open>Frames without a detection\<close>

text \<open>
  Claim C2. On a frame for which the detector, given its grey image, returns no
  rectangle, the triple is \<open>(0.0, 0.0, 0.0)\<close>, nothing is drawn, and the iteration hands
  to \<^verbatim>\<open>imshow\<close> the frame exactly as it was read.
\<close>

theorem no_detection_gives_sentinel:
  assumes rd: "read env (reads_made s) = Some frame"
    and cv: "cvtColor frame = Inr gray"
    and none: "detectMultiScale env gray = []"
  shows "process_frame (detectMultiScale env) frame
           = Inr (\<lparr>msg_x = Finite 0, msg_y = Finite 0, msg_z = PyFloat (Finite 0)\<rparr>, frame)
     \<and> (\<exists>s'. (iteration env s = Continue s' \<or> iteration env s = Stop Normal s')
           \<and> trace s' = trace s @ [Read (Some frame), Detect gray, Imshow frame,
                 WaitKey, GetWindowProperty (getWindowProperty env (checks_made s))])"
proof -
  have pf: "process_frame (detectMultiScale env) frame = Inr (sentinel, frame)"
    using cv none by (rule process_frame_empty)
  then have a: "process_frame (detectMultiScale env) frame
           = Inr (\<lparr>msg_x = Finite 0, msg_y = Finite 0, msg_z = PyFloat (Finite 0)\<rparr>, frame)"
    by (simp add: sentinel_def)
  have an: "annotate (detectMultiScale env) frame gray = Inr (sentinel, frame)"
    using pf cv by (simp add: process_frame_def)
  have b: "\<exists>s'. (iteration env s = Continue s' \<or> iteration env s = Stop Normal s')
           \<and> trace s' = trace s @ [Read (Some frame), Detect gray, Imshow frame,
                 WaitKey, GetWindowProperty (getWindowProperty env (checks_made s))]"
    by (simp add: iteration_def rd cv an Let_def emit_def)
  from a b show ?thesis by (rule conjI)
qed

theorem no_detection_gives_sentinel_witness:
  "read (stub_env True [blank_frame 480 640] [] 5) (reads_made (init :: unit state))
      = Some (blank_frame 480 640)
   \<and> cvtColor (blank_frame 480 640) = Inr (gray_of (blank_frame 480 640))
   \<and> detectMultiScale (stub_env True [blank_frame 480 640] [] 5) (gray_of (blank_frame 480 640)) = []
   \<and> process_frame (detectMultiScale (stub_env True [blank_frame 480 640] [] 5)) (blank_frame 480 640)
       = Inr (\<lparr>msg_x = Finite 0, msg_y = Finite 0, msg_z = PyFloat (Finite 0)\<rparr>, blank_frame 480 640)
   \<and> (\<exists>s'. (iteration (stub_env True [blank_frame 480 640] [] 5) init = Continue s'
             \<or> iteration (stub_env True [blank_frame 480 640] [] 5) init = Stop Normal s')
          \<and> trace s' = [Read (Some (blank_frame 480 640)), Detect (gray_of (blank_frame 480 640)),
                         Imshow (blank_frame 480 640), WaitKey, GetWindowProperty 1])"
proof -
  let ?E = "stub_env True [blank_frame 480 640] [] 5"
  let ?F = "blank_frame 480 640"
  have rd: "read ?E (reads_made (init :: unit state)) = Some ?F"
    by (simp add: stub_env_def stub_source_def init_def)
  have cv: "cvtColor ?F = Inr (gray_of ?F)"
    by (simp add: cvtColor_def blank_frame_def)
  have none: "detectMultiScale ?E (gray_of ?F) = []"
    by (simp add: stub_env_def stub_detector_def)
  have v: "getWindowProperty ?E (checks_made (init :: unit state)) = 1"
    by (simp add: stub_env_def stub_window_def init_def)
  have t: "trace (init :: unit state) = []" by (simp add: init_def)
  from no_detection_gives_sentinel [OF rd cv none] show ?thesis
    unfolding v t using rd cv none by simp
qed

subsection \<open>The two ways out of the loop\<close>

text \<open>
  Claim C6. When the \<open>N\<close>-th call of \<^verbatim>\<open>cap.read()\<close> is the first to return no frame
  (and the loop gets there: the \<open>N - 1\<close> frames before it are processed without an
  exception and the window is still visible after each), the loop completes exactly
  \<open>N - 1\<close> iterations and ends normally, having called \<^verbatim>\<open>read\<close> exactly \<open>N\<close> times: the
  failed read is not retried.
\<close>

theorem failed_read_ends_loop:
  assumes N: "0 < N"
    and run: "\<forall>k<N - 1. \<exists>frame r. read env k = Some frame
              \<and> process_frame (detectMultiScale env) frame = Inr r
              \<and> 1 \<le> getWindowProperty env k"
    and fail: "read env (N - 1) = None"
  shows "\<exists>s. main_loop env init = Some (Normal, s) \<and> iterations s = N - 1 \<and> reads_made s = N
           \<and> last (trace s) = Read None"
proof -
  have run': "\<forall>k<N - 1. \<exists>frame r. read env (reads_made (init :: 'a state) + k) = Some frame
              \<and> process_frame (detectMultiScale env) frame = Inr r
              \<and> 1 \<le> getWindowProperty env (checks_made (init :: 'a state) + k)"
    using run by (simp add: init_def)
  have fail': "read env (reads_made (init :: 'a state) + (N - 1)) = None"
    using fail by (simp add: init_def)
  from loop_ends_on_failed_read [OF run' fail'] N show ?thesis
    by (auto simp: init_def)
qed

theorem failed_read_ends_loop_witness:
  "(0 :: nat) < 3
   \<and> read (stub_env True [blank_frame 480 640, blank_frame 480 640] [(430, 190, 100, 100)] 5) 0
       = Some (blank_frame 480 640)
   \<and> read (stub_env True [blank_frame 480 640, blank_frame 480 640] [(430, 190, 100, 100)] 5) 1
       = Some (blank_frame 480 640)
   \<and> read (stub_env True [blank_frame 480 640, blank_frame 480 640] [(430, 190, 100, 100)] 5) (3 - 1)
       = None
   \<and> (\<exists>s. main_loop (stub_env True [blank_frame 480 640, blank_frame 480 640]
                         [(430, 190, 100, 100)] 5) init = Some (Normal, s)
          \<and> iterations s = 2 \<and> reads_made s = 3 \<and> last (trace s) = Read None)"
proof -
  let ?F = "blank_frame 480 640"
  let ?E = "stub_env True [?F, ?F] [(430, 190, 100, 100)] 5"
  have N: "(0 :: nat) < 3" by simp
  have r0: "read ?E 0 = Some ?F" and r1: "read ?E 1 = Some ?F"
    by (simp_all add: stub_env_def stub_source_def)
  have fail: "read ?E (3 - 1) = None" by (simp add: stub_env_def stub_source_def)
  have ok: "\<exists>r. process_frame (detectMultiScale ?E) ?F = Inr r"
    using stub_process_ok by (simp add: stub_env_def)
  have run: "\<forall>k<3 - 1. \<exists>frame r. read ?E k = Some frame
              \<and> process_frame (detectMultiScale ?E) frame = Inr r
              \<and> 1 \<le> getWindowProperty ?E k"
  proof (intro allI impI)
    fix k :: nat assume "k < 3 - 1"
    then have k: "k = 0 \<or> k = 1" by auto
    then have rd: "read ?E k = Some ?F" using r0 r1 by auto
    have vis: "1 \<le> getWindowProperty ?E k" using k by (auto simp: stub_env_def stub_window_def)
    show "\<exists>frame r. read ?E k = Some frame
              \<and> process_frame (detectMultiScale ?E) frame = Inr r
              \<and> 1 \<le> getWindowProperty ?E k"
      using rd ok vis by blast
  qed
  from failed_read_ends_loop [OF N run fail]
  have "\<exists>s. main_loop ?E init = Some (Normal, s) \<and> iterations s = 2 \<and> reads_made s = 3
          \<and> last (trace s) = Read None"
    by simp
  then show ?thesis using N r0 r1 fail by blast
qed

text \<open>
  Claim C7. When the visibility query after iteration \<open>M\<close> is the first to answer below
  1 (and the loop gets there: \<open>M\<close> frames are read and processed without an exception),
  the loop ends normally at iteration \<open>M\<close>: it has made \<open>M\<close> queries, one per completed
  iteration, and \<open>M\<close> reads, so no frame is acquired after the window is gone.
\<close>

theorem closed_window_ends_loop:
  assumes M: "0 < M"
    and frames: "\<forall>k<M. \<exists>frame r. read env k = Some frame
              \<and> process_frame (detectMultiScale env) frame = Inr r"
    and visible: "\<forall>k<M - 1. 1 \<le> getWindowProperty env k"
    and closed: "getWindowProperty env (M - 1) < 1"
  shows "\<exists>s. main_loop env init = Some (Normal, s) \<and> iterations s = M \<and> reads_made s = M
           \<and> checks_made s = M
           \<and> last (trace s) = GetWindowProperty (getWindowProperty env (M - 1))"
proof -
  have run': "\<forall>k<M - 1. \<exists>frame r. read env (reads_made (init :: 'a state) + k) = Some frame
              \<and> process_frame (detectMultiScale env) frame = Inr r
              \<and> 1 \<le> getWindowProperty env (checks_made (init :: 'a state) + k)"
    using frames visible by (simp add: init_def)
  from frames M obtain frame r where "read env (M - 1) = Some frame"
    and ok: "process_frame (detectMultiScale env) frame = Inr r"
    by (metis diff_less zero_less_one)
  then have rd: "read env (reads_made (init :: 'a state) + (M - 1)) = Some frame"
    by (simp add: init_def)
  have cl: "getWindowProperty env (checks_made (init :: 'a state) + (M - 1)) < 1"
    using closed by (simp add: init_def)
  from loop_ends_on_closed_window [OF run' rd ok cl] M show ?thesis
    by (auto simp: init_def)
qed

theorem closed_window_ends_loop_witness:
  "(0 :: nat) < 2
   \<and> 1 \<le> getWindowProperty (stub_env True [blank_frame 480 640, blank_frame 480 640,
              blank_frame 480 640] [(430, 190, 100, 100)] 2) 0
   \<and> getWindowProperty (stub_env True [blank_frame 480 640, blank_frame 480 640,
              blank_frame 480 640] [(430, 190, 100, 100)] 2) (2 - 1) < 1
   \<and> read (stub_env True [blank_frame 480 640, blank_frame 480 640,
              blank_frame 480 640] [(430, 190, 100, 100)] 2) 2 = Some (blank_frame 480 640)
   \<and> (\<exists>s. main_loop (stub_env True [blank_frame 480 640, blank_frame 480 640,
              blank_frame 480 640] [(430, 190, 100, 100)] 2) init = Some (Normal, s)
          \<and> iterations s = 2 \<and> reads_made s = 2 \<and> checks_made s = 2
          \<and> last (trace s) = GetWindowProperty 0)"
proof -
  let ?F = "blank_frame 480 640"
  let ?E = "stub_env True [?F, ?F, ?F] [(430, 190, 100, 100)] 2"
  have M: "(0 :: nat) < 2" by simp
  have v0: "1 \<le> getWindowProperty ?E 0" and closed: "getWindowProperty ?E (2 - 1) < 1"
    by (simp_all add: stub_env_def stub_window_def)
  have r2: "read ?E 2 = Some ?F" by (simp add: stub_env_def stub_source_def)
  have ok: "\<exists>r. process_frame (detectMultiScale ?E) ?F = Inr r"
    using stub_process_ok by (simp add: stub_env_def)
  have frames: "\<forall>k<2. \<exists>frame r. read ?E k = Some frame
              \<and> process_frame (detectMultiScale ?E) frame = Inr r"
  proof (intro allI impI)
    fix k :: nat assume "k < 2"
    then have "k = 0 \<or> k = 1" by auto
    then have "read ?E k = Some ?F" by (auto simp: stub_env_def stub_source_def)
    then show "\<exists>frame r. read ?E k = Some frame
              \<and> process_frame (detectMultiScale ?E) frame = Inr r"
      using ok by blast
  qed
  have visible: "\<forall>k<2 - 1. 1 \<le> getWindowProperty ?E k"
  proof (intro allI impI)
    fix k :: nat assume "k < 2 - 1"
    then have "k = 0" by auto
    then show "1 \<le> getWindowProperty ?E k" using v0 by simp
  qed
  have g: "getWindowProperty ?E (2 - 1) = 0" by (simp add: stub_env_def stub_window_def)
  from closed_window_ends_loop [OF M frames visible closed]
  have "\<exists>s. main_loop ?E init = Some (Normal, s) \<and> iterations s = 2 \<and> reads_made s = 2
          \<and> checks_made s = 2 \<and> last (trace s) = GetWindowProperty 0"
    unfolding g by simp
  then show ?thesis using M v0 closed r2 by blast
qed

section \<open>The script\<close>

text \<open>
  Claim C8. When the video source is not opened, the script raises
  \<^verbatim>\<open>RuntimeError("Camera not accesible")\<close> and the loop is never entered: the trace is
  empty, so no frame has been read, given to the detector or shown.
\<close>

theorem unopened_source_is_fatal:
  assumes "\<not> isOpened env"
  shows "\<exists>s. script env = Some (Raised (RuntimeError ''Camera not accesible''), s)
           \<and> trace s = [] \<and> reads_made s = 0 \<and> iterations s = 0"
  using assms by (simp add: script_def init_def)

theorem unopened_source_is_fatal_witness:
  "\<not> isOpened (stub_env False [blank_frame 480 640] [(430, 190, 100, 100)] 5)
   \<and> (\<exists>s. script (stub_env False [blank_frame 480 640] [(430, 190, 100, 100)] 5)
              = Some (Raised (RuntimeError ''Camera not accesible''), s)
          \<and> trace s = [] \<and> reads_made s = 0 \<and> iterations s = 0)"
proof -
  let ?E = "stub_env False [blank_frame 480 640] [(430, 190, 100, 100)] 5"
  have closed: "\<not> isOpened ?E" by (simp add: stub_env_def)
  from unopened_source_is_fatal [OF closed] show ?thesis using closed by blast
qed

text \<open>
  Claim C9. Whenever the loop ends normally, its last event is one of the two breaks
  (the failed read, or a visibility query answered below 1), it has released nothing
  itself, and the script then releases the source and closes the windows, once each,
  as its last two events.
\<close>

theorem release_once_after_loop:
  assumes op: "isOpened env" and fin: "main_loop env init = Some (Normal, s0)"
  shows "\<exists>s. script env = Some (Normal, s) \<and> trace s = trace s0 @ [Release, DestroyAllWindows]
           \<and> Release \<notin> set (trace s0) \<and> DestroyAllWindows \<notin> set (trace s0)
           \<and> trace s0 \<noteq> [] \<and> break_event (last (trace s0))"
proof -
  from main_loop_trace [OF fin] have "Release \<notin> set (trace s0)" "DestroyAllWindows \<notin> set (trace s0)"
    by (simp_all add: init_def)
  moreover from main_loop_break [OF fin] have "trace s0 \<noteq> []" "break_event (last (trace s0))"
    by simp_all
  moreover have "script env = Some (Normal, emit [Release, DestroyAllWindows] s0)"
    using op fin by (simp add: script_def)
  ultimately show ?thesis by (simp add: emit_def)
qed

theorem release_once_after_loop_witness:
  "isOpened (stub_env True [blank_frame 480 640] [(430, 190, 100, 100)] 5)
   \<and> (\<exists>s0 s. main_loop (stub_env True [blank_frame 480 640] [(430, 190, 100, 100)] 5) init
                 = Some (Normal, s0)
          \<and> script (stub_env True [blank_frame 480 640] [(430, 190, 100, 100)] 5) = Some (Normal, s)
          \<and> trace s = trace s0 @ [Release, DestroyAllWindows]
          \<and> Release \<notin> set (trace s0) \<and> DestroyAllWindows \<notin> set (trace s0)
          \<and> trace s0 \<noteq> [] \<and> break_event (last (trace s0)))"
proof -
  let ?F = "blank_frame 480 640"
  let ?E = "stub_env True [?F] [(430, 190, 100, 100)] 5"
  have op: "isOpened ?E" by (simp add: stub_env_def)
  have ok: "\<exists>r. process_frame (detectMultiScale ?E) ?F = Inr r"
    using stub_process_ok by (simp add: stub_env_def)
  have run: "\<forall>k<1. \<exists>frame r. read ?E (reads_made (init :: unit state) + k) = Some frame
              \<and> process_frame (detectMultiScale ?E) frame = Inr r
              \<and> 1 \<le> getWindowProperty ?E (checks_made (init :: unit state) + k)"
    using ok by (simp add: stub_env_def stub_source_def stub_window_def init_def)
  have fail: "read ?E (reads_made (init :: unit state) + 1) = None"
    by (simp add: stub_env_def stub_source_def init_def)
  from loop_ends_on_failed_read [OF run fail] obtain s0 where
    fin: "main_loop ?E init = Some (Normal, s0)" by blast
  from release_once_after_loop [OF op fin] show ?thesis using op fin by blast
qed

end
